theory Spec2Isabelle
  imports Main
begin

section \<open>The automation layer as an oracle\<close>

text \<open>
  The script \<^verbatim>\<open>verify_migration.py\<close> is straight-line code over a browser-automation
  library: one function, \<^verbatim>\<open>run(playwright)\<close>, which the module calls once, inside
  \<^verbatim>\<open>with sync_playwright() as playwright\<close>. Everything \<^verbatim>\<open>run\<close> does is a call into that
  library or to \<^verbatim>\<open>print\<close>. The model records each such call as an effect, in the order
  issued, and lets an oracle (the running browser, the application under test, the file
  system, the console) answer every call either with a raised exception or with a
  returned value. Nothing in the source catches an exception, so a raise ends the run.

  Browser and page objects are opaque references. \<open>ChromiumLaunch headless\<close> is
  \<^verbatim>\<open>playwright.chromium.launch(headless=...)\<close>, \<open>NewPage browser\<close> is \<^verbatim>\<open>browser.new_page()\<close>,
  \<open>Goto page url\<close> is \<^verbatim>\<open>page.goto(url)\<close>, \<open>ToBeVisible loc\<close> is
  \<^verbatim>\<open>expect(loc).to_be_visible()\<close>, \<open>Screenshot page path\<close> is \<^verbatim>\<open>page.screenshot(path=...)\<close>,
  \<open>Print msg\<close> is \<^verbatim>\<open>print(msg)\<close> and \<open>Close browser\<close> is \<^verbatim>\<open>browser.close()\<close>.
\<close>

type_synonym handle = nat

text \<open>\<^verbatim>\<open>page.get_by_role(role, name=...)\<close> builds a locator; it does not touch the browser.\<close>

datatype locator = GetByRole handle string string

datatype effect =
    is_ChromiumLaunch: ChromiumLaunch bool
  | is_NewPage: NewPage handle
  | is_Goto: Goto handle string
  | is_ToBeVisible: ToBeVisible locator
  | is_Screenshot: Screenshot handle string
  | is_Print: Print string
  | is_Close: Close handle

datatype error = PlaywrightError string | TimeoutError string | AssertionError string

text \<open>
  The oracle sees the effects issued so far and the call being made. \<open>Inl\<close> is a raised
  exception, \<open>Inr\<close> the reference of the returned object.
\<close>

type_synonym world = "effect list \<Rightarrow> effect \<Rightarrow> error + nat"

type_synonym 'a action = "effect list \<Rightarrow> (error + 'a) \<times> effect list"

definition perform :: "world \<Rightarrow> effect \<Rightarrow> nat action" where
  "perform w c = (\<lambda>tr. (w tr c, tr @ [c]))"

text \<open>Sequencing of two statements: an exception raised by the first skips the second.\<close>

definition and_then :: "'a action \<Rightarrow> ('a \<Rightarrow> 'b action) \<Rightarrow> 'b action" where
  "and_then m f = (\<lambda>tr. case m tr of (Inl e, tr') \<Rightarrow> (Inl e, tr') | (Inr a, tr') \<Rightarrow> f a tr')"

definition return_none :: "unit action" where
  "return_none = (\<lambda>tr. (Inr (), tr))"

subsection \<open>The library calls the script makes\<close>

definition chromium_launch :: "world \<Rightarrow> bool \<Rightarrow> handle action" where
  "chromium_launch playwright headless = perform playwright (ChromiumLaunch headless)"

definition new_page :: "world \<Rightarrow> handle \<Rightarrow> handle action" where
  "new_page playwright browser = perform playwright (NewPage browser)"

definition goto :: "world \<Rightarrow> handle \<Rightarrow> string \<Rightarrow> nat action" where
  "goto playwright page url = perform playwright (Goto page url)"

definition get_by_role :: "handle \<Rightarrow> string \<Rightarrow> string \<Rightarrow> locator" where
  "get_by_role page role name = GetByRole page role name"

definition expect_to_be_visible :: "world \<Rightarrow> locator \<Rightarrow> nat action" where
  "expect_to_be_visible playwright loc = perform playwright (ToBeVisible loc)"

definition screenshot :: "world \<Rightarrow> handle \<Rightarrow> string \<Rightarrow> nat action" where
  "screenshot playwright page path = perform playwright (Screenshot page path)"

definition print :: "world \<Rightarrow> string \<Rightarrow> nat action" where
  "print playwright msg = perform playwright (Print msg)"

definition close :: "world \<Rightarrow> handle \<Rightarrow> nat action" where
  "close playwright browser = perform playwright (Close browser)"

section \<open>The verification procedure\<close>

text \<open>
  \<^verbatim>\<open>run(playwright)\<close>, statement by statement. The values returned by \<^verbatim>\<open>goto\<close>,
  \<^verbatim>\<open>to_be_visible\<close>, \<^verbatim>\<open>screenshot\<close>, \<^verbatim>\<open>print\<close> and \<^verbatim>\<open>close\<close> are discarded, as in the
  source. The result is the outcome (\<open>Inl\<close> an unhandled exception, \<open>Inr ()\<close> a normal
  return) together with the effects issued, the failing one included.
\<close>

definition run :: "world \<Rightarrow> (error + unit) \<times> effect list" where
  "run playwright =
     and_then (chromium_launch playwright True) (\<lambda>browser.
     and_then (new_page playwright browser) (\<lambda>page.
     and_then (goto playwright page ''http://localhost:3000/login'') (\<lambda>_.
     and_then (expect_to_be_visible playwright
                 (get_by_role page ''heading'' ''Welcome to WealthLog'')) (\<lambda>_.
     and_then (screenshot playwright page ''jules-scratch/verification/login-page.png'') (\<lambda>_.
     and_then (print playwright ''Screenshot of login page taken.'') (\<lambda>_.
     and_then (goto playwright page ''http://localhost:3000/dashboard'') (\<lambda>_.
     and_then (expect_to_be_visible playwright
                 (get_by_role page ''heading'' ''Welcome to WealthLog'')) (\<lambda>_.
     and_then (print playwright ''Redirected to login page from dashboard as expected.'') (\<lambda>_.
     and_then (goto playwright page ''http://localhost:3000/landing'') (\<lambda>_.
     and_then (expect_to_be_visible playwright
                 (get_by_role page ''heading'' ''Dashboard'')) (\<lambda>_.
     and_then (screenshot playwright page ''jules-scratch/verification/dashboard-page.png'') (\<lambda>_.
     and_then (print playwright ''Screenshot of dashboard page taken.'') (\<lambda>_.
     and_then (close playwright browser) (\<lambda>_.
     return_none)))))))))))))) []"

text \<open>The two components of a run: how it ended, and what it did.\<close>

definition outcome :: "world \<Rightarrow> error + unit" where
  "outcome w = fst (run w)"

definition trace :: "world \<Rightarrow> effect list" where
  "trace w = snd (run w)"

section \<open>Observing a run\<close>

text \<open>The oracle's answer to the \<open>i\<close>-th effect of a trace, and whether an answer is a return.\<close>

definition answer :: "world \<Rightarrow> effect list \<Rightarrow> nat \<Rightarrow> error + nat" where
  "answer w tr i = w (take i tr) (tr ! i)"

definition succeeded :: "error + nat \<Rightarrow> bool" where
  "succeeded r = (case r of Inl _ \<Rightarrow> False | Inr _ \<Rightarrow> True)"

fun goto_url :: "effect \<Rightarrow> string option" where
  "goto_url (Goto _ url) = Some url"
| "goto_url _ = None"

fun screenshot_path :: "effect \<Rightarrow> string option" where
  "screenshot_path (Screenshot _ path) = Some path"
| "screenshot_path _ = None"

text \<open>The page object an effect is a method call on (directly, or through its locator).\<close>

fun page_used :: "effect \<Rightarrow> handle option" where
  "page_used (Goto page _) = Some page"
| "page_used (ToBeVisible (GetByRole page _ _)) = Some page"
| "page_used (Screenshot page _) = Some page"
| "page_used _ = None"

text \<open>
  The statements of \<^verbatim>\<open>run\<close> in program order, for a given browser and page object,
  and the execution of such a list against an oracle, stopping at the first raise.
  Lemma \<open>run_issue\<close> below relates them to \<open>run\<close>.
\<close>

definition procedure :: "handle \<Rightarrow> handle \<Rightarrow> effect list" where
  "procedure browser page =
    [ChromiumLaunch True,
     NewPage browser,
     Goto page ''http://localhost:3000/login'',
     ToBeVisible (GetByRole page ''heading'' ''Welcome to WealthLog''),
     Screenshot page ''jules-scratch/verification/login-page.png'',
     Print ''Screenshot of login page taken.'',
     Goto page ''http://localhost:3000/dashboard'',
     ToBeVisible (GetByRole page ''heading'' ''Welcome to WealthLog''),
     Print ''Redirected to login page from dashboard as expected.'',
     Goto page ''http://localhost:3000/landing'',
     ToBeVisible (GetByRole page ''heading'' ''Dashboard''),
     Screenshot page ''jules-scratch/verification/dashboard-page.png'',
     Print ''Screenshot of dashboard page taken.'',
     Close browser]"

fun issue :: "world \<Rightarrow> effect list \<Rightarrow> effect list \<Rightarrow> (error + unit) \<times> effect list" where
  "issue w tr [] = (Inr (), tr)"
| "issue w tr (c # cs) =
     (case w tr c of Inl e \<Rightarrow> (Inl e, tr @ [c]) | Inr _ \<Rightarrow> issue w (tr @ [c]) cs)"

definition returned :: "error + nat \<Rightarrow> nat" where
  "returned r = (case r of Inl _ \<Rightarrow> 0 | Inr v \<Rightarrow> v)"

definition browser_of :: "world \<Rightarrow> handle" where
  "browser_of w = returned (w [] (ChromiumLaunch True))"

definition page_of :: "world \<Rightarrow> handle" where
  "page_of w = returned (w [ChromiumLaunch True] (NewPage (browser_of w)))"

subsection \<open>Concrete oracles\<close>

text \<open>An oracle under which every call returns; the reference returned counts the earlier effects.\<close>

definition cooperative :: world where
  "cooperative = (\<lambda>tr c. Inr (length tr))"

text \<open>The same, except that the call made after \<open>n\<close> effects raises \<open>e\<close>.\<close>

definition failing_at :: "nat \<Rightarrow> error \<Rightarrow> world" where
  "failing_at n e = (\<lambda>tr c. if length tr = n then Inl e else Inr (length tr))"

text \<open>
  A test double for the application under test: what each route shows, and where the
  browser ends up after asking for it. Under \<open>serving app\<close> a heading assertion passes
  exactly when the page last navigated to shows a heading of that name; every other call
  returns. The location is known to the browser only: no call of the procedure asks for it.
\<close>

record view =
  location :: string
  headings :: "string list"

definition serving :: "(string \<Rightarrow> view) \<Rightarrow> world" where
  "serving app = (\<lambda>tr c.
     case c of
       ToBeVisible (GetByRole page role name) \<Rightarrow>
         (case rev (List.map_filter goto_url tr) of
            [] \<Rightarrow> Inl (AssertionError ''Locator expected to be visible'')
          | url # _ \<Rightarrow>
              if role = ''heading'' \<and> name \<in> set (headings (app url)) then Inr (length tr)
              else Inl (AssertionError ''Locator expected to be visible''))
     | _ \<Rightarrow> Inr (length tr))"

text \<open>
  An application that never redirects: every route stays where it is, the landing route
  shows "Dashboard" and every other route, the dashboard route included, shows
  "Welcome to WealthLog".
\<close>

definition unredirected :: "string \<Rightarrow> view" where
  "unredirected url =
     \<lparr>location = url,
      headings = (if url = ''http://localhost:3000/landing'' then [''Dashboard'']
                  else [''Welcome to WealthLog''])\<rparr>"

section \<open>The shape of every run\<close>

lemma succeeded_simps [simp]: "succeeded (Inr v)" "\<not> succeeded (Inl e)"
  by (simp_all add: succeeded_def)

lemma and_then_perform:
  "and_then (perform w c) f tr =
     (case w tr c of Inl e \<Rightarrow> (Inl e, tr @ [c]) | Inr v \<Rightarrow> f v (tr @ [c]))"
  by (simp add: and_then_def perform_def split: sum.splits)

lemmas call_defs = chromium_launch_def new_page_def goto_def get_by_role_def expect_to_be_visible_def
  screenshot_def print_def close_def return_none_def

text \<open>The procedure is its statements, issued in program order until one raises.\<close>

lemma run_issue: "run w = issue w [] (procedure (browser_of w) (page_of w))"
  by (simp add: run_def call_defs and_then_perform procedure_def browser_of_def page_of_def
      returned_def cong: sum.case_cong)

lemma length_procedure: "length (procedure b p) = 14"
  by (simp add: procedure_def)

text \<open>
  Executing a list of calls either returns, with all of them issued and answered by a
  return, or raises at the first call answered by a raise, with nothing issued after it.
  Conversely, the answers determine the execution.
\<close>

lemma issue_shape:
  "(fst (issue w h cs) = Inr () \<and> snd (issue w h cs) = h @ cs
      \<and> (\<forall>i<length cs. succeeded (w (h @ take i cs) (cs ! i))))
   \<or> (\<exists>n e. n < length cs \<and> fst (issue w h cs) = Inl e
        \<and> snd (issue w h cs) = h @ take (Suc n) cs
        \<and> w (h @ take n cs) (cs ! n) = Inl e
        \<and> (\<forall>i<n. succeeded (w (h @ take i cs) (cs ! i))))"
proof (induction cs arbitrary: h)
  case Nil
  then show ?case by simp
next
  case (Cons c cs)
  show ?case
  proof (cases "w h c")
    case (Inl e)
    then have "0 < length (c # cs) \<and> fst (issue w h (c # cs)) = Inl e
        \<and> snd (issue w h (c # cs)) = h @ take (Suc 0) (c # cs)
        \<and> w (h @ take 0 (c # cs)) ((c # cs) ! 0) = Inl e
        \<and> (\<forall>i<0. succeeded (w (h @ take i (c # cs)) ((c # cs) ! i)))"
      by simp
    then show ?thesis by blast
  next
    case (Inr v)
    from Cons.IH [of "h @ [c]"] show ?thesis
    proof (elim disjE exE conjE)
      assume a: "fst (issue w (h @ [c]) cs) = Inr ()"
        "snd (issue w (h @ [c]) cs) = (h @ [c]) @ cs"
        "\<forall>i<length cs. succeeded (w ((h @ [c]) @ take i cs) (cs ! i))"
      have "\<forall>i<length (c # cs). succeeded (w (h @ take i (c # cs)) ((c # cs) ! i))"
      proof (intro allI impI)
        fix i assume "i < length (c # cs)"
        then show "succeeded (w (h @ take i (c # cs)) ((c # cs) ! i))"
          using a(3) Inr by (cases i) auto
      qed
      with a Inr show ?thesis by simp
    next
      fix n e
      assume a: "n < length cs" "fst (issue w (h @ [c]) cs) = Inl e"
        "snd (issue w (h @ [c]) cs) = (h @ [c]) @ take (Suc n) cs"
        "w ((h @ [c]) @ take n cs) (cs ! n) = Inl e"
        "\<forall>i<n. succeeded (w ((h @ [c]) @ take i cs) (cs ! i))"
      have "\<forall>i<Suc n. succeeded (w (h @ take i (c # cs)) ((c # cs) ! i))"
      proof (intro allI impI)
        fix i assume "i < Suc n"
        then show "succeeded (w (h @ take i (c # cs)) ((c # cs) ! i))"
          using a(5) Inr by (cases i) auto
      qed
      with a Inr have "Suc n < length (c # cs) \<and> fst (issue w h (c # cs)) = Inl e
        \<and> snd (issue w h (c # cs)) = h @ take (Suc (Suc n)) (c # cs)
        \<and> w (h @ take (Suc n) (c # cs)) ((c # cs) ! Suc n) = Inl e
        \<and> (\<forall>i<Suc n. succeeded (w (h @ take i (c # cs)) ((c # cs) ! i)))"
        by simp
      then show ?thesis by blast
    qed
  qed
qed

lemma issue_raises:
  "n < length cs \<Longrightarrow> w (h @ take n cs) (cs ! n) = Inl e \<Longrightarrow>
   \<forall>i<n. succeeded (w (h @ take i cs) (cs ! i)) \<Longrightarrow>
   issue w h cs = (Inl e, h @ take (Suc n) cs)"
proof (induction cs arbitrary: h n)
  case Nil
  then show ?case by simp
next
  case (Cons c cs)
  show ?case
  proof (cases n)
    case 0
    with Cons.prems show ?thesis by simp
  next
    case (Suc k)
    from Cons.prems(3) Suc have "succeeded (w (h @ take 0 (c # cs)) ((c # cs) ! 0))"
      by blast
    then obtain v where v: "w h c = Inr v"
      by (cases "w h c") simp_all
    have "issue w (h @ [c]) cs = (Inl e, (h @ [c]) @ take (Suc k) cs)"
    proof (rule Cons.IH)
      show "k < length cs" using Cons.prems(1) Suc by simp
      show "w ((h @ [c]) @ take k cs) (cs ! k) = Inl e" using Cons.prems(2) Suc by simp
      show "\<forall>i<k. succeeded (w ((h @ [c]) @ take i cs) (cs ! i))"
      proof (intro allI impI)
        fix i assume "i < k"
        then have "Suc i < n" using Suc by simp
        with Cons.prems(3) have "succeeded (w (h @ take (Suc i) (c # cs)) ((c # cs) ! Suc i))"
          by blast
        then show "succeeded (w ((h @ [c]) @ take i cs) (cs ! i))" by simp
      qed
    qed
    with v Suc show ?thesis by simp
  qed
qed

lemma issue_returns:
  "\<forall>i<length cs. succeeded (w (h @ take i cs) (cs ! i)) \<Longrightarrow> issue w h cs = (Inr (), h @ cs)"
proof (induction cs arbitrary: h)
  case Nil
  then show ?case by simp
next
  case (Cons c cs)
  from Cons.prems have "succeeded (w (h @ take 0 (c # cs)) ((c # cs) ! 0))" by blast
  then obtain v where v: "w h c = Inr v"
    by (cases "w h c") simp_all
  have "issue w (h @ [c]) cs = (Inr (), (h @ [c]) @ cs)"
  proof (rule Cons.IH, intro allI impI)
    fix i assume "i < length cs"
    then have "Suc i < length (c # cs)" by simp
    with Cons.prems have "succeeded (w (h @ take (Suc i) (c # cs)) ((c # cs) ! Suc i))"
      by blast
    then show "succeeded (w ((h @ [c]) @ take i cs) (cs ! i))" by simp
  qed
  with v show ?case by simp
qed

lemma run_shape:
  obtains (returns) "outcome w = Inr ()"
      "trace w = procedure (browser_of w) (page_of w)"
      "\<forall>i<14. succeeded (answer w (trace w) i)"
  | (raises) n e where "n < 14" "outcome w = Inl e"
      "trace w = take (Suc n) (procedure (browser_of w) (page_of w))"
      "answer w (trace w) n = Inl e"
      "\<forall>i<n. succeeded (answer w (trace w) i)"
proof -
  let ?P = "procedure (browser_of w) (page_of w)"
  from issue_shape [of w "[]" ?P] show thesis
  proof (elim disjE exE conjE)
    assume a: "fst (issue w [] ?P) = Inr ()" "snd (issue w [] ?P) = [] @ ?P"
      "\<forall>i<length ?P. succeeded (w ([] @ take i ?P) (?P ! i))"
    then show thesis
      by (intro returns)
         (simp_all add: run_issue answer_def length_procedure outcome_def trace_def)
  next
    fix n e
    assume a: "n < length ?P" "fst (issue w [] ?P) = Inl e"
      "snd (issue w [] ?P) = [] @ take (Suc n) ?P"
      "w ([] @ take n ?P) (?P ! n) = Inl e"
      "\<forall>i<n. succeeded (w ([] @ take i ?P) (?P ! i))"
    show thesis
    proof (rule raises [of n e])
      show "n < 14" using a(1) by (simp add: length_procedure)
      show "outcome w = Inl e" using a(2) by (simp add: run_issue outcome_def)
      show "trace w = take (Suc n) ?P" using a(3) by (simp add: run_issue trace_def)
      show "answer w (trace w) n = Inl e"
        using a(1,3,4) by (simp add: run_issue answer_def min_def trace_def)
      show "\<forall>i<n. succeeded (answer w (trace w) i)"
        using a(1,3,5) by (simp add: run_issue answer_def min_def trace_def)
    qed
  qed
qed

lemma length_trace_raises:
  "n < 14 \<Longrightarrow> trace w = take (Suc n) (procedure b p) \<Longrightarrow> length (trace w) = Suc n"
  by (simp add: length_procedure)

text \<open>The objects the later statements use are the ones the first two calls returned.\<close>

lemma launch_answer:
  "succeeded (answer w (trace w) 0) \<Longrightarrow> w [] (ChromiumLaunch True) = Inr (browser_of w)"
  by (cases rule: run_shape [of w])
     (auto simp: answer_def procedure_def browser_of_def returned_def succeeded_def
       split: sum.splits)

lemma new_page_answer:
  "1 < length (trace w) \<Longrightarrow> succeeded (answer w (trace w) 1) \<Longrightarrow>
   w [ChromiumLaunch True] (NewPage (browser_of w)) = Inr (page_of w)"
  by (cases rule: run_shape [of w])
     (auto simp: answer_def procedure_def page_of_def returned_def succeeded_def
       split: sum.splits)

subsection \<open>Traces are prefixes of the program\<close>

lemma length_trace: "0 < length (trace w)" "length (trace w) \<le> 14"
  by (cases rule: run_shape [of w]; simp add: length_procedure)+

lemma trace_lt14: "i < length (trace w) \<Longrightarrow> i < 14"
  using length_trace(2) [of w] by simp

lemma trace_nth:
  "i < length (trace w) \<Longrightarrow> trace w ! i = procedure (browser_of w) (page_of w) ! i"
  by (cases rule: run_shape [of w]) simp_all

lemma trace_take:
  "trace w = take (length (trace w)) (procedure (browser_of w) (page_of w))"
  by (cases rule: run_shape [of w]) (simp_all add: length_procedure min_def)

lemma trace_prefix:
  "\<exists>m. 0 < m \<and> m \<le> 14 \<and> trace w = take m (procedure (browser_of w) (page_of w))"
  using trace_take [of w] length_trace [of w] by blast

lemma take_trace:
  "i \<le> length (trace w) \<Longrightarrow> take i (trace w) = take i (procedure (browser_of w) (page_of w))"
proof -
  assume i: "i \<le> length (trace w)"
  obtain m where m: "trace w = take m (procedure (browser_of w) (page_of w))"
    using trace_prefix [of w] by blast
  from i have "i \<le> m" by (subst (asm) m) simp
  then show ?thesis by (subst m) (simp add: min_def)
qed

lemma answers_before_last:
  "Suc i < length (trace w) \<Longrightarrow> succeeded (answer w (trace w) i)"
  by (cases rule: run_shape [of w]) (simp_all add: length_procedure)

lemma succeeded_continues:
  "i < length (trace w) \<Longrightarrow> succeeded (answer w (trace w) i) \<Longrightarrow> i < 13 \<Longrightarrow>
   Suc i < length (trace w)"
proof (cases rule: run_shape [of w])
  case returns
  assume "i < 13"
  with returns(2) show ?thesis by (simp add: length_procedure)
next
  case (raises n e)
  assume a: "i < length (trace w)" "succeeded (answer w (trace w) i)"
  have len: "length (trace w) = Suc n" using raises(1,3) by (rule length_trace_raises)
  from a(2) raises(4) have "i \<noteq> n" by auto
  with a(1) len show ?thesis by simp
qed

lemma outcome_returns:
  "outcome w = Inr () \<Longrightarrow> trace w = procedure (browser_of w) (page_of w)"
  by (cases rule: run_shape [of w]) simp_all

subsection \<open>Where each kind of statement stands in the program\<close>

lemma lt14E:
  assumes "i < (14::nat)"
  obtains "i = 0" | "i = 1" | "i = 2" | "i = 3" | "i = 4" | "i = 5" | "i = 6" | "i = 7"
    | "i = 8" | "i = 9" | "i = 10" | "i = 11" | "i = 12" | "i = 13"
proof -
  from assms have "i = 0 \<or> i = 1 \<or> i = 2 \<or> i = 3 \<or> i = 4 \<or> i = 5 \<or> i = 6 \<or> i = 7
    \<or> i = 8 \<or> i = 9 \<or> i = 10 \<or> i = 11 \<or> i = 12 \<or> i = 13"
    by arith
  with that show thesis by blast
qed

lemma procedure_take_cases:
  assumes "0 < m" and "m \<le> 14"
  obtains "m = 1" | "m = 2" | "m = 3" | "m = 4" | "m = 5" | "m = 6" | "m = 7"
    | "m = 8" | "m = 9" | "m = 10" | "m = 11" | "m = 12" | "m = 13" | "m = (14::nat)"
proof -
  from assms have "m = 1 \<or> m = 2 \<or> m = 3 \<or> m = 4 \<or> m = 5 \<or> m = 6 \<or> m = 7
    \<or> m = 8 \<or> m = 9 \<or> m = 10 \<or> m = 11 \<or> m = 12 \<or> m = 13 \<or> m = 14"
    by arith
  with that show thesis by blast
qed

lemma procedure_goto:
  assumes "i < 14" and "procedure b p ! i = Goto pg url"
  shows "pg = p \<and>
    (i = 2 \<and> url = ''http://localhost:3000/login''
     \<or> i = 6 \<and> url = ''http://localhost:3000/dashboard''
     \<or> i = 9 \<and> url = ''http://localhost:3000/landing'')"
  using assms by (elim lt14E) (simp_all add: procedure_def)

lemma procedure_goto_url:
  assumes "i < 14" and "goto_url (procedure b p ! i) = Some url"
  shows "procedure b p ! i = Goto p url"
  using assms by (elim lt14E) (simp_all add: procedure_def)

lemma procedure_assert:
  assumes "i < 14" and "procedure b p ! i = ToBeVisible (GetByRole pg role name)"
  shows "pg = p \<and> role = ''heading'' \<and>
    (i = 3 \<and> name = ''Welcome to WealthLog''
     \<or> i = 7 \<and> name = ''Welcome to WealthLog''
     \<or> i = 10 \<and> name = ''Dashboard'')"
  using assms by (elim lt14E) (simp_all add: procedure_def)

lemma procedure_screenshot:
  assumes "i < 14" and "procedure b p ! i = Screenshot pg path"
  shows "pg = p \<and>
    (i = 4 \<and> path = ''jules-scratch/verification/login-page.png''
     \<or> i = 11 \<and> path = ''jules-scratch/verification/dashboard-page.png'')"
  using assms by (elim lt14E) (simp_all add: procedure_def)

lemma procedure_is_screenshot:
  assumes "i < 14" and "is_Screenshot (procedure b p ! i)"
  shows "i = 4 \<or> i = 11"
  using assms by (elim lt14E) (simp_all add: procedure_def)

lemma procedure_is_new_page:
  assumes "i < 14" and "is_NewPage (procedure b p ! i)"
  shows "i = 1"
  using assms by (elim lt14E) (simp_all add: procedure_def)

lemma procedure_is_close:
  assumes "i < 14" and "is_Close (procedure b p ! i)"
  shows "i = 13"
  using assms by (elim lt14E) (simp_all add: procedure_def)

lemma procedure_page_used:
  assumes "i < 14" and "page_used (procedure b p ! i) = Some pg"
  shows "pg = p \<and> 1 < i"
  using assms by (elim lt14E) (simp_all add: procedure_def)

lemma filter_launch_take:
  assumes "0 < m" and "m \<le> 14"
  shows "filter is_ChromiumLaunch (take m (procedure b p)) = [ChromiumLaunch True]"
  using assms by (elim procedure_take_cases) (simp_all add: procedure_def)

lemma filter_new_page_take:
  assumes "0 < m" and "m \<le> 14"
  shows "filter is_NewPage (take m (procedure b p)) = (if m = 1 then [] else [NewPage b])"
  using assms by (elim procedure_take_cases) (simp_all add: procedure_def)

lemma goto_urls_take:
  assumes "0 < m" and "m \<le> 14"
  shows "\<exists>n. List.map_filter goto_url (take m (procedure b p)) =
    take n [''http://localhost:3000/login'', ''http://localhost:3000/dashboard'',
            ''http://localhost:3000/landing'']"
proof -
  let ?urls = "[''http://localhost:3000/login'', ''http://localhost:3000/dashboard'',
            ''http://localhost:3000/landing'']"
  from assms have "List.map_filter goto_url (take m (procedure b p)) = take 0 ?urls
    \<or> List.map_filter goto_url (take m (procedure b p)) = take 1 ?urls
    \<or> List.map_filter goto_url (take m (procedure b p)) = take 2 ?urls
    \<or> List.map_filter goto_url (take m (procedure b p)) = take 3 ?urls"
    by (elim procedure_take_cases) (simp_all add: procedure_def)
  then show ?thesis by blast
qed

lemma screenshot_paths_take:
  assumes "0 < m" and "m \<le> 14"
  shows "List.map_filter screenshot_path (take m (procedure b p)) = [] \<or>
    List.map_filter screenshot_path (take m (procedure b p)) =
      [''jules-scratch/verification/login-page.png''] \<or>
    List.map_filter screenshot_path (take m (procedure b p)) =
      [''jules-scratch/verification/login-page.png'',
       ''jules-scratch/verification/dashboard-page.png'']"
  using assms by (elim procedure_take_cases) (simp_all add: procedure_def)

lemma three_from:
  assumes "Suc (Suc i) < length xs"
  shows "take 3 (drop i xs) = [xs ! i, xs ! Suc i, xs ! Suc (Suc i)]"
proof -
  from assms have "drop i xs = xs ! i # xs ! Suc i # xs ! Suc (Suc i) # drop (Suc (Suc (Suc i))) xs"
    by (simp add: Cons_nth_drop_Suc)
  then show ?thesis by simp
qed

subsection \<open>The runs of the concrete oracles\<close>

lemma trace_cooperative:
  "trace cooperative =
       [ChromiumLaunch True,
        NewPage 0,
        Goto 1 ''http://localhost:3000/login'',
        ToBeVisible (GetByRole 1 ''heading'' ''Welcome to WealthLog''),
        Screenshot 1 ''jules-scratch/verification/login-page.png'',
        Print ''Screenshot of login page taken.'',
        Goto 1 ''http://localhost:3000/dashboard'',
        ToBeVisible (GetByRole 1 ''heading'' ''Welcome to WealthLog''),
        Print ''Redirected to login page from dashboard as expected.'',
        Goto 1 ''http://localhost:3000/landing'',
        ToBeVisible (GetByRole 1 ''heading'' ''Dashboard''),
        Screenshot 1 ''jules-scratch/verification/dashboard-page.png'',
        Print ''Screenshot of dashboard page taken.'',
        Close 0]"
  by (simp add: trace_def run_def call_defs and_then_perform cooperative_def)

lemma outcome_cooperative: "outcome cooperative = Inr ()"
  by (simp add: outcome_def run_def call_defs and_then_perform cooperative_def)

lemma length_trace_cooperative: "length (trace cooperative) = 14"
  by (simp add: trace_cooperative)

lemma answer_cooperative: "succeeded (answer cooperative tr i)"
  by (simp add: answer_def cooperative_def)

lemma trace_unredirected:
  "trace (serving unredirected) =
       [ChromiumLaunch True,
        NewPage 0,
        Goto 1 ''http://localhost:3000/login'',
        ToBeVisible (GetByRole 1 ''heading'' ''Welcome to WealthLog''),
        Screenshot 1 ''jules-scratch/verification/login-page.png'',
        Print ''Screenshot of login page taken.'',
        Goto 1 ''http://localhost:3000/dashboard'',
        ToBeVisible (GetByRole 1 ''heading'' ''Welcome to WealthLog''),
        Print ''Redirected to login page from dashboard as expected.'',
        Goto 1 ''http://localhost:3000/landing'',
        ToBeVisible (GetByRole 1 ''heading'' ''Dashboard''),
        Screenshot 1 ''jules-scratch/verification/dashboard-page.png'',
        Print ''Screenshot of dashboard page taken.'',
        Close 0]"
  by (simp add: trace_def run_def call_defs and_then_perform serving_def unredirected_def)

section \<open>The success path\<close>

text \<open>
  C1. On the success path, that is when \<^verbatim>\<open>run\<close> returns without raising (so every
  navigation and every assertion, like every other call, has succeeded), the effects of
  the procedure are exactly these fourteen, in this order: launch a headless browser,
  open one page, navigate to the login URL, assert the heading "Welcome to WealthLog",
  save a screenshot, print a confirmation, navigate to the dashboard URL, assert the
  heading "Welcome to WealthLog", print a confirmation, navigate to the landing URL,
  assert the heading "Dashboard", save a screenshot, print a confirmation, close the
  browser. The navigations are the three listed, and there is no other effect. The
  browser and the page are the objects returned by the first two calls.
\<close>

theorem run_success_sequence:
  assumes "outcome w = Inr ()"
  shows "\<exists>browser page.
     w [] (ChromiumLaunch True) = Inr browser \<and>
     w [ChromiumLaunch True] (NewPage browser) = Inr page \<and>
     (\<forall>i<length (trace w). succeeded (answer w (trace w) i)) \<and>
     trace w =
       [ChromiumLaunch True,
        NewPage browser,
        Goto page ''http://localhost:3000/login'',
        ToBeVisible (GetByRole page ''heading'' ''Welcome to WealthLog''),
        Screenshot page ''jules-scratch/verification/login-page.png'',
        Print ''Screenshot of login page taken.'',
        Goto page ''http://localhost:3000/dashboard'',
        ToBeVisible (GetByRole page ''heading'' ''Welcome to WealthLog''),
        Print ''Redirected to login page from dashboard as expected.'',
        Goto page ''http://localhost:3000/landing'',
        ToBeVisible (GetByRole page ''heading'' ''Dashboard''),
        Screenshot page ''jules-scratch/verification/dashboard-page.png'',
        Print ''Screenshot of dashboard page taken.'',
        Close browser] \<and>
     List.map_filter goto_url (trace w) =
       [''http://localhost:3000/login'', ''http://localhost:3000/dashboard'',
        ''http://localhost:3000/landing'']"
proof (cases rule: run_shape [of w])
  case returns
  have len: "1 < length (trace w)" using returns(2) by (simp add: length_procedure)
  from returns(3) have "succeeded (answer w (trace w) 0)" "succeeded (answer w (trace w) 1)"
    by simp_all
  with len have "w [] (ChromiumLaunch True) = Inr (browser_of w)"
    "w [ChromiumLaunch True] (NewPage (browser_of w)) = Inr (page_of w)"
    by (simp_all add: launch_answer new_page_answer)
  moreover have "trace w = procedure (browser_of w) (page_of w)" by (rule returns(2))
  moreover have "\<forall>i<length (trace w). succeeded (answer w (trace w) i)"
    using returns(3) by (simp add: returns(2) length_procedure)
  ultimately show ?thesis
    by (intro exI [of _ "browser_of w"] exI [of _ "page_of w"]) (simp add: procedure_def)
next
  case (raises n e)
  with assms show ?thesis by simp
qed

theorem run_success_sequence_witness:
  "outcome cooperative = Inr () \<and>
   trace cooperative =
       [ChromiumLaunch True,
        NewPage 0,
        Goto 1 ''http://localhost:3000/login'',
        ToBeVisible (GetByRole 1 ''heading'' ''Welcome to WealthLog''),
        Screenshot 1 ''jules-scratch/verification/login-page.png'',
        Print ''Screenshot of login page taken.'',
        Goto 1 ''http://localhost:3000/dashboard'',
        ToBeVisible (GetByRole 1 ''heading'' ''Welcome to WealthLog''),
        Print ''Redirected to login page from dashboard as expected.'',
        Goto 1 ''http://localhost:3000/landing'',
        ToBeVisible (GetByRole 1 ''heading'' ''Dashboard''),
        Screenshot 1 ''jules-scratch/verification/dashboard-page.png'',
        Print ''Screenshot of dashboard page taken.'',
        Close 0]"
proof -
  have ok: "outcome cooperative = Inr ()"
    by (simp add: outcome_def run_def call_defs and_then_perform cooperative_def)
  from run_success_sequence [OF ok] show ?thesis
    using ok by (auto simp: cooperative_def)
qed

section \<open>Failure\<close>

text \<open>
  C2. In every run, when a step fails (the oracle answers the \<open>i\<close>-th effect of the run
  with a raise \<open>e\<close>; this covers a failing navigation or assertion, and any other call),
  the procedure aborts at that point: its outcome is the unhandled exception \<open>e\<close>, the
  failing effect is the last one issued, and the effects of the run are exactly the
  program's statements up to and including the failing one, each issued once. So no
  later screenshot, confirmation message or navigation occurs, and no step is retried.
\<close>

theorem failure_aborts:
  assumes "i < length (trace w)" and "answer w (trace w) i = Inl e"
  shows "outcome w = Inl e \<and> length (trace w) = Suc i \<and>
    (\<exists>browser page. trace w = take (Suc i) (procedure browser page))"
proof (cases rule: run_shape [of w])
  case returns
  from assms(1) returns(2) have "i < 14" by (simp add: length_procedure)
  with returns(3) have "succeeded (answer w (trace w) i)" by blast
  with assms(2) show ?thesis by simp
next
  case (raises n e')
  have len: "length (trace w) = Suc n"
    using raises(1,3) by (rule length_trace_raises)
  have "i = n"
  proof (rule ccontr)
    assume "i \<noteq> n"
    with assms(1) len have "i < n" by simp
    with raises(5) have "succeeded (answer w (trace w) i)" by blast
    with assms(2) show False by simp
  qed
  with raises assms(2) len show ?thesis by auto
qed

theorem failure_aborts_witness:
  "6 < length (trace (failing_at 6 (TimeoutError ''Timeout 30000ms exceeded.''))) \<and>
   answer (failing_at 6 (TimeoutError ''Timeout 30000ms exceeded.''))
     (trace (failing_at 6 (TimeoutError ''Timeout 30000ms exceeded.''))) 6
     = Inl (TimeoutError ''Timeout 30000ms exceeded.'') \<and>
   outcome (failing_at 6 (TimeoutError ''Timeout 30000ms exceeded.''))
     = Inl (TimeoutError ''Timeout 30000ms exceeded.'') \<and>
   trace (failing_at 6 (TimeoutError ''Timeout 30000ms exceeded.'')) =
     [ChromiumLaunch True,
      NewPage 0,
      Goto 1 ''http://localhost:3000/login'',
      ToBeVisible (GetByRole 1 ''heading'' ''Welcome to WealthLog''),
      Screenshot 1 ''jules-scratch/verification/login-page.png'',
      Print ''Screenshot of login page taken.'',
      Goto 1 ''http://localhost:3000/dashboard'']"
proof -
  let ?w = "failing_at 6 (TimeoutError ''Timeout 30000ms exceeded.'')"
  have tr: "trace ?w =
     [ChromiumLaunch True,
      NewPage 0,
      Goto 1 ''http://localhost:3000/login'',
      ToBeVisible (GetByRole 1 ''heading'' ''Welcome to WealthLog''),
      Screenshot 1 ''jules-scratch/verification/login-page.png'',
      Print ''Screenshot of login page taken.'',
      Goto 1 ''http://localhost:3000/dashboard'']"
    by (simp add: trace_def run_def call_defs and_then_perform failing_at_def)
  have h1: "6 < length (trace ?w)" by (simp add: tr)
  have h2: "answer ?w (trace ?w) 6 = Inl (TimeoutError ''Timeout 30000ms exceeded.'')"
    unfolding answer_def tr by (simp add: failing_at_def)
  from failure_aborts [OF h1 h2] h1 h2 tr show ?thesis by simp
qed

section \<open>Screenshots\<close>

text \<open>
  C3. The only screenshot files a run writes are \<^verbatim>\<open>jules-scratch/verification/login-page.png\<close>
  and \<^verbatim>\<open>jules-scratch/verification/dashboard-page.png\<close>, in this order and each at most
  once; a run that returns writes exactly these two. The first is taken only right
  after the heading assertion of the login page, which follows the navigation to the
  login URL, has passed, and the second only right after the heading assertion of the
  landing page has passed. No screenshot is taken during the dashboard step: a
  screenshot that comes after the navigation to the dashboard URL comes after the
  navigation to the landing URL.
\<close>

theorem screenshots_after_assertions:
  "(List.map_filter screenshot_path (trace w) = [] \<or>
    List.map_filter screenshot_path (trace w) =
      [''jules-scratch/verification/login-page.png''] \<or>
    List.map_filter screenshot_path (trace w) =
      [''jules-scratch/verification/login-page.png'',
       ''jules-scratch/verification/dashboard-page.png''])
   \<and> (outcome w = Inr () \<longrightarrow>
        List.map_filter screenshot_path (trace w) =
          [''jules-scratch/verification/login-page.png'',
           ''jules-scratch/verification/dashboard-page.png''])
   \<and> (\<forall>i<length (trace w). \<forall>pg.
        trace w ! i = Screenshot pg ''jules-scratch/verification/login-page.png'' \<longrightarrow>
        2 \<le> i \<and> trace w ! (i - 2) = Goto pg ''http://localhost:3000/login''
        \<and> trace w ! (i - 1) = ToBeVisible (GetByRole pg ''heading'' ''Welcome to WealthLog'')
        \<and> succeeded (answer w (trace w) (i - 1)))
   \<and> (\<forall>i<length (trace w). \<forall>pg.
        trace w ! i = Screenshot pg ''jules-scratch/verification/dashboard-page.png'' \<longrightarrow>
        2 \<le> i \<and> trace w ! (i - 2) = Goto pg ''http://localhost:3000/landing''
        \<and> trace w ! (i - 1) = ToBeVisible (GetByRole pg ''heading'' ''Dashboard'')
        \<and> succeeded (answer w (trace w) (i - 1)))
   \<and> (\<forall>i j. i < j \<and> j < length (trace w)
        \<and> goto_url (trace w ! i) = Some ''http://localhost:3000/dashboard''
        \<and> is_Screenshot (trace w ! j) \<longrightarrow>
        (\<exists>k. i < k \<and> k < j \<and> goto_url (trace w ! k) = Some ''http://localhost:3000/landing''))"
  (is "?files \<and> ?both \<and> ?login \<and> ?landing \<and> ?dashboard")
proof -
  let ?P = "procedure (browser_of w) (page_of w)"
  obtain m where m: "0 < m" "m \<le> 14" "trace w = take m ?P"
    using trace_take [of w] length_trace [of w] by blast
  have files: ?files
    using screenshot_paths_take [OF m(1,2)] by (simp add: m(3))
  have both: ?both
    by (auto dest!: outcome_returns simp: procedure_def)
  have login: ?login
  proof (intro allI impI)
    fix i pg
    assume i: "i < length (trace w)"
      and s: "trace w ! i = Screenshot pg ''jules-scratch/verification/login-page.png''"
    from i s have "?P ! i = Screenshot pg ''jules-scratch/verification/login-page.png''"
      by (simp add: trace_nth)
    with procedure_screenshot [OF trace_lt14 [OF i]] have eq: "pg = page_of w" "i = 4"
      by auto
    with i have "trace w ! 2 = ?P ! 2" "trace w ! 3 = ?P ! 3"
      by (simp_all add: trace_nth)
    moreover from i eq have "succeeded (answer w (trace w) 3)"
      by (simp add: answers_before_last)
    ultimately show "2 \<le> i \<and> trace w ! (i - 2) = Goto pg ''http://localhost:3000/login''
        \<and> trace w ! (i - 1) = ToBeVisible (GetByRole pg ''heading'' ''Welcome to WealthLog'')
        \<and> succeeded (answer w (trace w) (i - 1))"
      using eq by (simp add: procedure_def)
  qed
  have landing: ?landing
  proof (intro allI impI)
    fix i pg
    assume i: "i < length (trace w)"
      and s: "trace w ! i = Screenshot pg ''jules-scratch/verification/dashboard-page.png''"
    from i s have "?P ! i = Screenshot pg ''jules-scratch/verification/dashboard-page.png''"
      by (simp add: trace_nth)
    with procedure_screenshot [OF trace_lt14 [OF i]] have eq: "pg = page_of w" "i = 11"
      by auto
    with i have "trace w ! 9 = ?P ! 9" "trace w ! 10 = ?P ! 10"
      by (simp_all add: trace_nth)
    moreover from i eq have "succeeded (answer w (trace w) 10)"
      by (simp add: answers_before_last)
    ultimately show "2 \<le> i \<and> trace w ! (i - 2) = Goto pg ''http://localhost:3000/landing''
        \<and> trace w ! (i - 1) = ToBeVisible (GetByRole pg ''heading'' ''Dashboard'')
        \<and> succeeded (answer w (trace w) (i - 1))"
      using eq by (simp add: procedure_def)
  qed
  have dashboard: ?dashboard
  proof (intro allI impI, elim conjE)
    fix i j
    assume ij: "i < j" and j: "j < length (trace w)"
      and g: "goto_url (trace w ! i) = Some ''http://localhost:3000/dashboard''"
      and s: "is_Screenshot (trace w ! j)"
    from ij j have i: "i < length (trace w)" by simp
    from g i have "goto_url (?P ! i) = Some ''http://localhost:3000/dashboard''"
      by (simp add: trace_nth)
    then have "?P ! i = Goto (page_of w) ''http://localhost:3000/dashboard''"
      by (rule procedure_goto_url [OF trace_lt14 [OF i]])
    with procedure_goto [OF trace_lt14 [OF i]] have i6: "i = 6" by auto
    from s j have "is_Screenshot (?P ! j)" by (simp add: trace_nth)
    with procedure_is_screenshot [OF trace_lt14 [OF j]] ij i6 have j11: "j = 11" by auto
    with j have "trace w ! 9 = ?P ! 9" by (simp add: trace_nth)
    then have "goto_url (trace w ! 9) = Some ''http://localhost:3000/landing''"
      by (simp add: procedure_def)
    with i6 j11 show "\<exists>k. i < k \<and> k < j \<and>
        goto_url (trace w ! k) = Some ''http://localhost:3000/landing''"
      by (intro exI [of _ 9]) simp
  qed
  from files both login landing dashboard show ?thesis by blast
qed

theorem screenshots_after_assertions_witness:
  "outcome cooperative = Inr () \<and>
   List.map_filter screenshot_path (trace cooperative) =
     [''jules-scratch/verification/login-page.png'',
      ''jules-scratch/verification/dashboard-page.png''] \<and>
   trace cooperative ! 4 = Screenshot 1 ''jules-scratch/verification/login-page.png'' \<and>
   trace cooperative ! 2 = Goto 1 ''http://localhost:3000/login'' \<and>
   trace cooperative ! 3 = ToBeVisible (GetByRole 1 ''heading'' ''Welcome to WealthLog'') \<and>
   succeeded (answer cooperative (trace cooperative) 3) \<and>
   trace cooperative ! 11 = Screenshot 1 ''jules-scratch/verification/dashboard-page.png'' \<and>
   trace cooperative ! 9 = Goto 1 ''http://localhost:3000/landing'' \<and>
   trace cooperative ! 10 = ToBeVisible (GetByRole 1 ''heading'' ''Dashboard'') \<and>
   succeeded (answer cooperative (trace cooperative) 10) \<and>
   goto_url (trace cooperative ! 6) = Some ''http://localhost:3000/dashboard'' \<and>
   is_Screenshot (trace cooperative ! 11) \<and>
   (\<exists>k. 6 < k \<and> k < 11 \<and>
      goto_url (trace cooperative ! k) = Some ''http://localhost:3000/landing'')"
proof -
  note inst = screenshots_after_assertions [of cooperative]
  have a: "trace cooperative ! 4 = Screenshot 1 ''jules-scratch/verification/login-page.png''"
    "trace cooperative ! 11 = Screenshot 1 ''jules-scratch/verification/dashboard-page.png''"
    "goto_url (trace cooperative ! 6) = Some ''http://localhost:3000/dashboard''"
    "is_Screenshot (trace cooperative ! 11)"
    by (simp_all add: trace_cooperative)
  from inst have both: "List.map_filter screenshot_path (trace cooperative) =
     [''jules-scratch/verification/login-page.png'',
      ''jules-scratch/verification/dashboard-page.png'']"
    using outcome_cooperative by blast
  from inst have "\<forall>i<length (trace cooperative). \<forall>pg.
        trace cooperative ! i = Screenshot pg ''jules-scratch/verification/login-page.png'' \<longrightarrow>
        2 \<le> i \<and> trace cooperative ! (i - 2) = Goto pg ''http://localhost:3000/login''
        \<and> trace cooperative ! (i - 1) = ToBeVisible (GetByRole pg ''heading'' ''Welcome to WealthLog'')
        \<and> succeeded (answer cooperative (trace cooperative) (i - 1))"
    by blast
  from this [rule_format, of 4 1] a(1) have login:
    "trace cooperative ! 2 = Goto 1 ''http://localhost:3000/login''"
    "trace cooperative ! 3 = ToBeVisible (GetByRole 1 ''heading'' ''Welcome to WealthLog'')"
    "succeeded (answer cooperative (trace cooperative) 3)"
    by (simp_all add: length_trace_cooperative)
  from inst have "\<forall>i<length (trace cooperative). \<forall>pg.
        trace cooperative ! i = Screenshot pg ''jules-scratch/verification/dashboard-page.png'' \<longrightarrow>
        2 \<le> i \<and> trace cooperative ! (i - 2) = Goto pg ''http://localhost:3000/landing''
        \<and> trace cooperative ! (i - 1) = ToBeVisible (GetByRole pg ''heading'' ''Dashboard'')
        \<and> succeeded (answer cooperative (trace cooperative) (i - 1))"
    by blast
  from this [rule_format, of 11 1] a(2) have landing:
    "trace cooperative ! 9 = Goto 1 ''http://localhost:3000/landing''"
    "trace cooperative ! 10 = ToBeVisible (GetByRole 1 ''heading'' ''Dashboard'')"
    "succeeded (answer cooperative (trace cooperative) 10)"
    by (simp_all add: length_trace_cooperative)
  from inst have "\<forall>i j. i < j \<and> j < length (trace cooperative)
        \<and> goto_url (trace cooperative ! i) = Some ''http://localhost:3000/dashboard''
        \<and> is_Screenshot (trace cooperative ! j) \<longrightarrow>
        (\<exists>k. i < k \<and> k < j \<and> goto_url (trace cooperative ! k) = Some ''http://localhost:3000/landing'')"
    by blast
  from this [rule_format, of 6 11] a(3,4) have
    "\<exists>k. 6 < k \<and> k < 11 \<and> goto_url (trace cooperative ! k) = Some ''http://localhost:3000/landing''"
    by (simp add: length_trace_cooperative)
  with outcome_cooperative both a login landing show ?thesis by blast
qed

section \<open>The dashboard check\<close>

text \<open>
  C4. Once the navigation to \<^verbatim>\<open>http://localhost:3000/dashboard\<close> has succeeded, the next
  effect is the assertion that a heading named "Welcome to WealthLog" is visible on the
  same page. This is the very assertion of the login check (effects 2 and 3 of the run),
  not one on a heading of the dashboard. When it passes, the next effect is the
  confirmation message.
\<close>

theorem dashboard_check_reuses_login_heading:
  assumes "i < length (trace w)"
    and "trace w ! i = Goto pg ''http://localhost:3000/dashboard''"
    and "succeeded (answer w (trace w) i)"
  shows "Suc i < length (trace w)
    \<and> trace w ! Suc i = ToBeVisible (GetByRole pg ''heading'' ''Welcome to WealthLog'')
    \<and> trace w ! 2 = Goto pg ''http://localhost:3000/login''
    \<and> trace w ! 3 = ToBeVisible (GetByRole pg ''heading'' ''Welcome to WealthLog'')
    \<and> (succeeded (answer w (trace w) (Suc i)) \<longrightarrow>
         Suc (Suc i) < length (trace w)
         \<and> trace w ! Suc (Suc i) =
             Print ''Redirected to login page from dashboard as expected.'')"
proof -
  let ?P = "procedure (browser_of w) (page_of w)"
  from assms(1,2) have "?P ! i = Goto pg ''http://localhost:3000/dashboard''"
    by (simp add: trace_nth)
  with procedure_goto [OF trace_lt14 [OF assms(1)]] have eq: "pg = page_of w" "i = 6"
    by auto
  from assms(1,3) eq have len: "7 < length (trace w)"
    using succeeded_continues [of 6 w] by simp
  then have nth: "trace w ! 2 = ?P ! 2" "trace w ! 3 = ?P ! 3" "trace w ! 7 = ?P ! 7"
    by (simp_all add: trace_nth)
  have print: "8 < length (trace w) \<and> trace w ! 8 =
      Print ''Redirected to login page from dashboard as expected.''"
    if "succeeded (answer w (trace w) 7)"
  proof -
    from len that have "8 < length (trace w)"
      using succeeded_continues [of 7 w] by simp
    then show ?thesis by (simp add: trace_nth procedure_def)
  qed
  from len nth print eq show ?thesis by (simp add: procedure_def)
qed

theorem dashboard_check_reuses_login_heading_witness:
  "6 < length (trace cooperative)
   \<and> trace cooperative ! 6 = Goto 1 ''http://localhost:3000/dashboard''
   \<and> succeeded (answer cooperative (trace cooperative) 6)
   \<and> succeeded (answer cooperative (trace cooperative) 7)
   \<and> trace cooperative ! 7 = ToBeVisible (GetByRole 1 ''heading'' ''Welcome to WealthLog'')
   \<and> trace cooperative ! 3 = ToBeVisible (GetByRole 1 ''heading'' ''Welcome to WealthLog'')
   \<and> trace cooperative ! 8 = Print ''Redirected to login page from dashboard as expected.''"
proof -
  have h: "6 < length (trace cooperative)"
    "trace cooperative ! 6 = Goto 1 ''http://localhost:3000/dashboard''"
    "succeeded (answer cooperative (trace cooperative) 6)"
    "succeeded (answer cooperative (trace cooperative) 7)"
    by (simp_all add: trace_cooperative answer_cooperative)
  from dashboard_check_reuses_login_heading [OF h(1,2,3)] h show ?thesis by simp
qed

section \<open>The browser\<close>

text \<open>
  C5. Every run acquires exactly one browser, and does so first: the trace starts with
  the launch and holds no other launch. A run that returns has closed the browser it
  launched exactly once, as its last effect. In no run is anything issued after a
  close, and a browser that is closed is the one that was launched.
\<close>

theorem browser_lifecycle:
  "trace w \<noteq> [] \<and> hd (trace w) = ChromiumLaunch True
   \<and> filter is_ChromiumLaunch (trace w) = [ChromiumLaunch True]
   \<and> (outcome w = Inr () \<longrightarrow>
        (\<exists>browser. w [] (ChromiumLaunch True) = Inr browser
           \<and> last (trace w) = Close browser
           \<and> filter is_Close (trace w) = [Close browser]))
   \<and> (\<forall>i<length (trace w). is_Close (trace w ! i) \<longrightarrow> Suc i = length (trace w))
   \<and> (\<forall>i<length (trace w). \<forall>browser. trace w ! i = Close browser \<longrightarrow>
        w [] (ChromiumLaunch True) = Inr browser)"
  (is "?nonempty \<and> ?first \<and> ?once \<and> ?closed \<and> ?last \<and> ?same")
proof -
  let ?P = "procedure (browser_of w) (page_of w)"
  obtain m where m: "0 < m" "m \<le> 14" "trace w = take m ?P"
    using trace_prefix [of w] by blast
  have nonempty: ?nonempty using length_trace(1) [of w] by simp
  have "trace w ! 0 = ?P ! 0" using length_trace(1) [of w] by (simp add: trace_nth)
  with nonempty have first: ?first by (simp add: hd_conv_nth procedure_def)
  have once: ?once using filter_launch_take [OF m(1,2)] by (simp add: m(3))
  have closed: ?closed
  proof
    assume ok: "outcome w = Inr ()"
    then have tr: "trace w = ?P" by (rule outcome_returns)
    then have "succeeded (answer w (trace w) 0)"
      using answers_before_last [of 0 w] by (simp add: length_procedure)
    then have "w [] (ChromiumLaunch True) = Inr (browser_of w)" by (rule launch_answer)
    moreover have "last (trace w) = Close (browser_of w)"
      "filter is_Close (trace w) = [Close (browser_of w)]"
      by (simp_all add: tr procedure_def)
    ultimately show "\<exists>browser. w [] (ChromiumLaunch True) = Inr browser
           \<and> last (trace w) = Close browser
           \<and> filter is_Close (trace w) = [Close browser]"
      by blast
  qed
  have at_end: "i = 13 \<and> length (trace w) = 14"
    if i: "i < length (trace w)" and c: "is_Close (trace w ! i)" for i
  proof -
    from i c have "is_Close (?P ! i)" by (simp add: trace_nth)
    with procedure_is_close [OF trace_lt14 [OF i]] have "i = 13" by blast
    with i length_trace(2) [of w] show ?thesis by simp
  qed
  have last: ?last
  proof (intro allI impI)
    fix i
    assume "i < length (trace w)" and "is_Close (trace w ! i)"
    then have "i = 13 \<and> length (trace w) = 14" by (rule at_end)
    then show "Suc i = length (trace w)" by simp
  qed
  have same: ?same
  proof (intro allI impI)
    fix i browser
    assume i: "i < length (trace w)" and c: "trace w ! i = Close browser"
    with at_end [of i] have len: "i = 13" "length (trace w) = 14" by simp_all
    with c have "browser = browser_of w" by (simp add: trace_nth procedure_def)
    moreover from len have "succeeded (answer w (trace w) 0)"
      by (simp add: answers_before_last)
    ultimately show "w [] (ChromiumLaunch True) = Inr browser" by (simp add: launch_answer)
  qed
  from nonempty first once closed last same show ?thesis by blast
qed

theorem browser_lifecycle_witness:
  "outcome cooperative = Inr ()
   \<and> hd (trace cooperative) = ChromiumLaunch True
   \<and> filter is_ChromiumLaunch (trace cooperative) = [ChromiumLaunch True]
   \<and> cooperative [] (ChromiumLaunch True) = Inr 0
   \<and> last (trace cooperative) = Close 0
   \<and> filter is_Close (trace cooperative) = [Close 0]
   \<and> 13 < length (trace cooperative)
   \<and> is_Close (trace cooperative ! 13)
   \<and> Suc 13 = length (trace cooperative)"
proof -
  note inst = browser_lifecycle [of cooperative]
  have h: "13 < length (trace cooperative)" "is_Close (trace cooperative ! 13)"
    by (simp_all add: trace_cooperative)
  have h3: "cooperative [] (ChromiumLaunch True) = Inr 0"
    by (simp add: cooperative_def)
  from inst have "\<forall>i<length (trace cooperative). is_Close (trace cooperative ! i) \<longrightarrow>
      Suc i = length (trace cooperative)"
    by blast
  from this [rule_format, OF h(1,2)] have e: "Suc 13 = length (trace cooperative)" .
  from inst outcome_cooperative have "\<exists>browser. cooperative [] (ChromiumLaunch True) = Inr browser
           \<and> last (trace cooperative) = Close browser
           \<and> filter is_Close (trace cooperative) = [Close browser]"
    by blast
  with h3 have "last (trace cooperative) = Close 0"
    "filter is_Close (trace cooperative) = [Close 0]"
    by auto
  with inst outcome_cooperative h h3 e show ?thesis by blast
qed

section \<open>Navigation before assertion\<close>

text \<open>
  C6. In every prefix of the effects of every run, a heading assertion is never first:
  the effect right before it is the navigation, on the same page, to the URL it checks
  (the login or the dashboard URL for "Welcome to WealthLog", the landing URL for
  "Dashboard"), and that navigation has succeeded. Each assertion has a navigation of its
  own: before the assertion there is one more navigation than there are assertions.
\<close>

theorem navigation_before_assertion:
  assumes "n \<le> length (trace w)" and "i < n"
    and "take n (trace w) ! i = ToBeVisible (GetByRole pg role name)"
  shows "0 < i
    \<and> (take n (trace w) ! (i - 1) = Goto pg ''http://localhost:3000/login''
          \<and> name = ''Welcome to WealthLog''
        \<or> take n (trace w) ! (i - 1) = Goto pg ''http://localhost:3000/dashboard''
          \<and> name = ''Welcome to WealthLog''
        \<or> take n (trace w) ! (i - 1) = Goto pg ''http://localhost:3000/landing''
          \<and> name = ''Dashboard'')
    \<and> succeeded (answer w (trace w) (i - 1))
    \<and> length (filter is_Goto (take i (take n (trace w))))
        = Suc (length (filter is_ToBeVisible (take i (take n (trace w)))))"
proof -
  let ?P = "procedure (browser_of w) (page_of w)"
  from assms(1,2) have i: "i < length (trace w)" by simp
  from assms(2,3) i have "?P ! i = ToBeVisible (GetByRole pg role name)"
    by (simp add: trace_nth)
  with procedure_assert [OF trace_lt14 [OF i]] have pg: "pg = page_of w"
    and cases: "i = 3 \<and> name = ''Welcome to WealthLog''
      \<or> i = 7 \<and> name = ''Welcome to WealthLog'' \<or> i = 10 \<and> name = ''Dashboard''"
    by auto
  from cases have pos: "0 < i" by auto
  with i have prev: "take n (trace w) ! (i - 1) = ?P ! (i - 1)"
    using assms(2) by (simp add: trace_nth)
  from pos i have ok: "succeeded (answer w (trace w) (i - 1))"
    by (simp add: answers_before_last)
  from assms(2) i have tk: "take i (take n (trace w)) = take i ?P"
    by (simp add: min_def take_trace)
  from cases show ?thesis
  proof (elim disjE conjE)
    assume "i = 3" "name = ''Welcome to WealthLog''"
    with pg prev ok tk show ?thesis by (simp add: procedure_def)
  next
    assume "i = 7" "name = ''Welcome to WealthLog''"
    with pg prev ok tk show ?thesis by (simp add: procedure_def)
  next
    assume "i = 10" "name = ''Dashboard''"
    with pg prev ok tk show ?thesis by (simp add: procedure_def)
  qed
qed

theorem navigation_before_assertion_witness:
  "8 \<le> length (trace cooperative) \<and> (7::nat) < 8
   \<and> take 8 (trace cooperative) ! 7 = ToBeVisible (GetByRole 1 ''heading'' ''Welcome to WealthLog'')
   \<and> take 8 (trace cooperative) ! (7 - 1) = Goto 1 ''http://localhost:3000/dashboard''
   \<and> succeeded (answer cooperative (trace cooperative) (7 - 1))
   \<and> length (filter is_Goto (take 7 (take 8 (trace cooperative)))) = 2
   \<and> length (filter is_ToBeVisible (take 7 (take 8 (trace cooperative)))) = 1"
proof -
  have h: "8 \<le> length (trace cooperative)" "(7::nat) < 8"
    "take 8 (trace cooperative) ! 7 = ToBeVisible (GetByRole 1 ''heading'' ''Welcome to WealthLog'')"
    by (simp_all add: trace_cooperative)
  have c: "length (filter is_ToBeVisible (take 7 (take 8 (trace cooperative)))) = 1"
    "take 8 (trace cooperative) ! (7 - 1) = Goto 1 ''http://localhost:3000/dashboard''"
    by (simp_all add: trace_cooperative)
  from navigation_before_assertion [OF h] h c show ?thesis by simp
qed

section \<open>The landing check\<close>

text \<open>
  C7. The navigations of a run go to the login, the dashboard and the landing URL, in this
  order, so that the third check is the one of \<^verbatim>\<open>http://localhost:3000/landing\<close>. Once
  that navigation has succeeded the next effect is the assertion that a heading named
  "Dashboard" is visible on the page, and this assertion is made nowhere else than right
  after the navigation to the landing URL. A run that returns has made both.
\<close>

theorem landing_check:
  "(\<exists>n. List.map_filter goto_url (trace w) =
      take n [''http://localhost:3000/login'', ''http://localhost:3000/dashboard'',
              ''http://localhost:3000/landing''])
   \<and> (\<forall>i<length (trace w). \<forall>pg.
        trace w ! i = Goto pg ''http://localhost:3000/landing''
        \<and> succeeded (answer w (trace w) i) \<longrightarrow>
        Suc i < length (trace w)
        \<and> trace w ! Suc i = ToBeVisible (GetByRole pg ''heading'' ''Dashboard''))
   \<and> (\<forall>i<length (trace w). \<forall>pg role.
        trace w ! i = ToBeVisible (GetByRole pg role ''Dashboard'') \<longrightarrow>
        0 < i \<and> role = ''heading''
        \<and> trace w ! (i - 1) = Goto pg ''http://localhost:3000/landing'')
   \<and> (outcome w = Inr () \<longrightarrow>
        (\<exists>pg. trace w ! 9 = Goto pg ''http://localhost:3000/landing''
          \<and> trace w ! 10 = ToBeVisible (GetByRole pg ''heading'' ''Dashboard'')))"
  (is "?order \<and> ?asserts \<and> ?there \<and> ?both")
proof -
  let ?P = "procedure (browser_of w) (page_of w)"
  obtain m where m: "0 < m" "m \<le> 14" "trace w = take m ?P"
    using trace_prefix [of w] by blast
  have order: ?order using goto_urls_take [OF m(1,2)] by (simp add: m(3))
  have asserts: ?asserts
  proof (intro allI impI, elim conjE)
    fix i pg
    assume i: "i < length (trace w)"
      and g: "trace w ! i = Goto pg ''http://localhost:3000/landing''"
      and ok: "succeeded (answer w (trace w) i)"
    from i g have "?P ! i = Goto pg ''http://localhost:3000/landing''"
      by (simp add: trace_nth)
    with procedure_goto [OF trace_lt14 [OF i]] have eq: "pg = page_of w" "i = 9"
      by auto
    from i ok eq have len: "10 < length (trace w)"
      using succeeded_continues [of 9 w] by simp
    then have "trace w ! 10 = ?P ! 10" by (simp add: trace_nth)
    with len eq show "Suc i < length (trace w)
        \<and> trace w ! Suc i = ToBeVisible (GetByRole pg ''heading'' ''Dashboard'')"
      by (simp add: procedure_def)
  qed
  have there: ?there
  proof (intro allI impI)
    fix i pg role
    assume i: "i < length (trace w)"
      and a: "trace w ! i = ToBeVisible (GetByRole pg role ''Dashboard'')"
    from i a have "?P ! i = ToBeVisible (GetByRole pg role ''Dashboard'')"
      by (simp add: trace_nth)
    from procedure_assert [OF trace_lt14 [OF i] this]
    have eq: "pg = page_of w" "role = ''heading''" "i = 10"
      by simp_all
    with i have "trace w ! 9 = ?P ! 9" by (simp add: trace_nth)
    with eq show "0 < i \<and> role = ''heading''
        \<and> trace w ! (i - 1) = Goto pg ''http://localhost:3000/landing''"
      by (simp add: procedure_def)
  qed
  have both: ?both
    by (auto dest!: outcome_returns simp: procedure_def)
  from order asserts there both show ?thesis by blast
qed

theorem landing_check_witness:
  "outcome cooperative = Inr ()
   \<and> List.map_filter goto_url (trace cooperative) =
      [''http://localhost:3000/login'', ''http://localhost:3000/dashboard'',
       ''http://localhost:3000/landing'']
   \<and> 9 < length (trace cooperative)
   \<and> trace cooperative ! 9 = Goto 1 ''http://localhost:3000/landing''
   \<and> succeeded (answer cooperative (trace cooperative) 9)
   \<and> trace cooperative ! Suc 9 = ToBeVisible (GetByRole 1 ''heading'' ''Dashboard'')"
proof -
  note inst = landing_check [of cooperative]
  have h: "9 < length (trace cooperative)"
    "trace cooperative ! 9 = Goto 1 ''http://localhost:3000/landing''"
    "succeeded (answer cooperative (trace cooperative) 9)"
    by (simp_all add: trace_cooperative answer_cooperative)
  have urls: "List.map_filter goto_url (trace cooperative) =
      [''http://localhost:3000/login'', ''http://localhost:3000/dashboard'',
       ''http://localhost:3000/landing'']"
    by (simp add: trace_cooperative)
  from inst have "\<forall>i<length (trace cooperative). \<forall>pg.
        trace cooperative ! i = Goto pg ''http://localhost:3000/landing''
        \<and> succeeded (answer cooperative (trace cooperative) i) \<longrightarrow>
        Suc i < length (trace cooperative)
        \<and> trace cooperative ! Suc i = ToBeVisible (GetByRole pg ''heading'' ''Dashboard'')"
    by blast
  from this [rule_format, of 9 1] h
  have "trace cooperative ! Suc 9 = ToBeVisible (GetByRole 1 ''heading'' ''Dashboard'')"
    by blast
  with outcome_cooperative urls h show ?thesis by blast
qed

section \<open>Determinism\<close>

text \<open>
  C8. The procedure has no input besides the automation layer it is handed: \<open>run\<close> takes the
  oracle and nothing else, and every URL, expected text, path and message is a literal.
  If a second automation layer gives, at each step of a run, the answer the first one
  gave, then the second run is the same run: the same effects (URLs, assertions,
  screenshot paths, console messages) in the same order, and the same outcome.
\<close>

theorem run_deterministic:
  assumes "\<forall>i<length (trace w1). answer w2 (trace w1) i = answer w1 (trace w1) i"
  shows "run w2 = run w1"
proof -
  let ?P = "procedure (browser_of w1) (page_of w1)"
  have run1: "run w1 = (outcome w1, trace w1)" by (simp add: outcome_def trace_def)
  have first: "trace w1 ! 0 = ChromiumLaunch True" "0 < length (trace w1)"
    by (cases rule: run_shape [of w1]; simp add: procedure_def)+
  with assms have "answer w2 (trace w1) 0 = answer w1 (trace w1) 0" by blast
  with first have b: "browser_of w2 = browser_of w1"
    by (simp add: answer_def browser_of_def)
  show ?thesis
  proof (cases rule: run_shape [of w1])
    case returns
    have len: "length (trace w1) = 14" using returns(2) by (simp add: length_procedure)
    with assms have "answer w2 (trace w1) 1 = answer w1 (trace w1) 1" by simp
    then have p: "page_of w2 = page_of w1"
      using b by (simp add: answer_def page_of_def returns(2) procedure_def)
    have "\<forall>i<length ?P. succeeded (w2 ([] @ take i ?P) (?P ! i))"
    proof (intro allI impI)
      fix i assume "i < length ?P"
      then have i: "i < 14" by (simp add: length_procedure)
      with assms len have "answer w2 (trace w1) i = answer w1 (trace w1) i" by simp
      moreover from returns(3) i have "succeeded (answer w1 (trace w1) i)" by blast
      ultimately show "succeeded (w2 ([] @ take i ?P) (?P ! i))"
        by (simp add: answer_def returns(2))
    qed
    then have "issue w2 [] ?P = (Inr (), [] @ ?P)" by (rule issue_returns)
    then show ?thesis using b p returns run1 by (simp add: run_issue [of w2])
  next
    case (raises n e)
    have len: "length (trace w1) = Suc n" using raises(1,3) by (rule length_trace_raises)
    have agree: "w2 (take i ?P) (?P ! i) = w1 (take i ?P) (?P ! i)" if "i \<le> n" for i
    proof -
      from that len assms have "answer w2 (trace w1) i = answer w1 (trace w1) i" by simp
      with that show ?thesis by (simp add: answer_def raises(3) min_def)
    qed
    have fail1: "w1 (take n ?P) (?P ! n) = Inl e"
      using raises(4) by (simp add: answer_def raises(3) min_def)
    show ?thesis
    proof (cases n)
      case 0
      with fail1 agree [of 0] have "w1 [] (ChromiumLaunch True) = Inl e" "w2 [] (ChromiumLaunch True) = Inl e"
        by (simp_all add: procedure_def)
      then show ?thesis by (simp add: run_issue procedure_def)
    next
      case (Suc k)
      from agree [of 1] Suc have p: "page_of w2 = page_of w1"
        using b by (simp add: page_of_def procedure_def)
      have "issue w2 [] ?P = (Inl e, [] @ take (Suc n) ?P)"
      proof (rule issue_raises)
        show "n < length ?P" using raises(1) by (simp add: length_procedure)
        show "w2 ([] @ take n ?P) (?P ! n) = Inl e" using agree [of n] fail1 by simp
        show "\<forall>i<n. succeeded (w2 ([] @ take i ?P) (?P ! i))"
        proof (intro allI impI)
          fix i assume i: "i < n"
          with raises(5) have "succeeded (answer w1 (trace w1) i)" by blast
          with i agree [of i] show "succeeded (w2 ([] @ take i ?P) (?P ! i))"
            by (simp add: answer_def raises(3) min_def)
        qed
      qed
      then show ?thesis using b p raises run1 by (simp add: run_issue [of w2])
    qed
  qed
qed

theorem run_deterministic_witness:
  "length (trace (failing_at 2 (TimeoutError ''t''))) = 3 \<and>
   answer (\<lambda>tr c. if length tr < 2 then Inr (length tr) else Inl (TimeoutError ''t''))
       (trace (failing_at 2 (TimeoutError ''t''))) 0
     = answer (failing_at 2 (TimeoutError ''t'')) (trace (failing_at 2 (TimeoutError ''t''))) 0 \<and>
   answer (\<lambda>tr c. if length tr < 2 then Inr (length tr) else Inl (TimeoutError ''t''))
       (trace (failing_at 2 (TimeoutError ''t''))) 1
     = answer (failing_at 2 (TimeoutError ''t'')) (trace (failing_at 2 (TimeoutError ''t''))) 1 \<and>
   answer (\<lambda>tr c. if length tr < 2 then Inr (length tr) else Inl (TimeoutError ''t''))
       (trace (failing_at 2 (TimeoutError ''t''))) 2
     = answer (failing_at 2 (TimeoutError ''t'')) (trace (failing_at 2 (TimeoutError ''t''))) 2 \<and>
   run (\<lambda>tr c. if length tr < 2 then Inr (length tr) else Inl (TimeoutError ''t''))
     = run (failing_at 2 (TimeoutError ''t''))"
proof -
  let ?w1 = "failing_at 2 (TimeoutError ''t'')"
  let ?w2 = "\<lambda>tr c. if length tr < 2 then Inr (length tr) else Inl (TimeoutError ''t'')"
  have len: "length (trace ?w1) = 3"
    by (simp add: trace_def run_def call_defs and_then_perform failing_at_def)
  have h: "\<forall>i<length (trace ?w1). answer ?w2 (trace ?w1) i = answer ?w1 (trace ?w1) i"
    unfolding answer_def len by (auto simp: failing_at_def len)
  from run_deterministic [of ?w1 ?w2, OF h] h len show ?thesis by simp
qed

section \<open>What the dashboard step looks at\<close>

text \<open>
  C9. In the dashboard step the procedure asks the automation layer one thing only. Whatever
  the navigation to the dashboard URL returns (\<open>v\<close> is discarded, and with it the response
  and the address the browser ended at), the next effect is the heading assertion and, as
  soon as that assertion passes, the effect after it is the message
  "Redirected to login page from dashboard as expected.": no call in between reads the
  location of the page. The step ends there; what follows is the navigation to the
  landing URL. So the message is printed whenever a heading named "Welcome to WealthLog"
  is visible after the navigation, redirect or not.
\<close>

theorem dashboard_confirmation_needs_only_heading:
  assumes "i < length (trace w)"
    and "trace w ! i = Goto pg ''http://localhost:3000/dashboard''"
    and "answer w (trace w) i = Inr v"
    and "succeeded (answer w (trace w) (Suc i))"
  shows "take 3 (drop i (trace w)) =
      [Goto pg ''http://localhost:3000/dashboard'',
       ToBeVisible (GetByRole pg ''heading'' ''Welcome to WealthLog''),
       Print ''Redirected to login page from dashboard as expected.'']
    \<and> (succeeded (answer w (trace w) (Suc (Suc i))) \<longrightarrow>
         trace w ! Suc (Suc (Suc i)) = Goto pg ''http://localhost:3000/landing'')"
proof -
  let ?P = "procedure (browser_of w) (page_of w)"
  from assms(1,2) have "?P ! i = Goto pg ''http://localhost:3000/dashboard''"
    by (simp add: trace_nth)
  with procedure_goto [OF trace_lt14 [OF assms(1)]] have eq: "pg = page_of w" "i = 6"
    by auto
  from assms(3) have "succeeded (answer w (trace w) i)" by simp
  with assms(1) eq have "7 < length (trace w)"
    using succeeded_continues [of 6 w] by simp
  with assms(4) eq have len: "8 < length (trace w)"
    using succeeded_continues [of 7 w] by simp
  then have seg: "take 3 (drop 6 (trace w)) = [?P ! 6, ?P ! 7, ?P ! 8]"
    by (simp add: three_from trace_nth)
  have after: "trace w ! 9 = Goto pg ''http://localhost:3000/landing''"
    if "succeeded (answer w (trace w) 8)"
  proof -
    from len that have "9 < length (trace w)"
      using succeeded_continues [of 8 w] by simp
    then show ?thesis using eq by (simp add: trace_nth procedure_def)
  qed
  from seg after eq show ?thesis by (simp add: procedure_def)
qed

theorem dashboard_confirmation_needs_only_heading_witness:
  "location (unredirected ''http://localhost:3000/dashboard'') = ''http://localhost:3000/dashboard''
   \<and> 6 < length (trace (serving unredirected))
   \<and> trace (serving unredirected) ! 6 = Goto 1 ''http://localhost:3000/dashboard''
   \<and> answer (serving unredirected) (trace (serving unredirected)) 6 = Inr 6
   \<and> succeeded (answer (serving unredirected) (trace (serving unredirected)) (Suc 6))
   \<and> take 3 (drop 6 (trace (serving unredirected))) =
      [Goto 1 ''http://localhost:3000/dashboard'',
       ToBeVisible (GetByRole 1 ''heading'' ''Welcome to WealthLog''),
       Print ''Redirected to login page from dashboard as expected.'']"
proof -
  have h: "6 < length (trace (serving unredirected))"
    "trace (serving unredirected) ! 6 = Goto 1 ''http://localhost:3000/dashboard''"
    by (simp_all add: trace_unredirected)
  have a: "answer (serving unredirected) (trace (serving unredirected)) 6 = Inr 6"
    "succeeded (answer (serving unredirected) (trace (serving unredirected)) (Suc 6))"
    unfolding answer_def trace_unredirected by (simp_all add: serving_def unredirected_def)
  have l: "location (unredirected ''http://localhost:3000/dashboard'')
      = ''http://localhost:3000/dashboard''"
    by (simp add: unredirected_def)
  from dashboard_confirmation_needs_only_heading [OF h a] h a l show ?thesis by blast
qed

section \<open>The page\<close>

text \<open>
  C10. A run creates at most one page, and exactly one as soon as the browser has been
  launched: the only \<^verbatim>\<open>new_page\<close> call is the second effect, and there is one launch only.
  Every navigation, assertion and screenshot of the run is a call on the page which that
  \<^verbatim>\<open>new_page\<close> call returned. In a run that returns these are three navigations, three
  assertions and two screenshots, all on that one page.
\<close>

theorem single_page:
  "length (filter is_NewPage (trace w)) \<le> 1
   \<and> (\<forall>browser. w [] (ChromiumLaunch True) = Inr browser \<longrightarrow>
        filter is_NewPage (trace w) = [NewPage browser])
   \<and> filter is_ChromiumLaunch (trace w) = [ChromiumLaunch True]
   \<and> (\<forall>i<length (trace w). is_NewPage (trace w ! i) \<longrightarrow> i = 1)
   \<and> (\<forall>i<length (trace w). \<forall>pg. page_used (trace w ! i) = Some pg \<longrightarrow>
        1 < i \<and> (\<exists>browser. trace w ! 1 = NewPage browser
                    \<and> w [ChromiumLaunch True] (NewPage browser) = Inr pg))
   \<and> (outcome w = Inr () \<longrightarrow>
        (\<exists>pg. map page_used (trace w) =
           [None, None, Some pg, Some pg, Some pg, None, Some pg, Some pg, None,
            Some pg, Some pg, Some pg, None, None])
        \<and> length (filter is_Goto (trace w)) = 3
        \<and> length (filter is_ToBeVisible (trace w)) = 3
        \<and> length (filter is_Screenshot (trace w)) = 2)"
  (is "?atmost \<and> ?one \<and> ?browser \<and> ?second \<and> ?same \<and> ?all")
proof -
  let ?P = "procedure (browser_of w) (page_of w)"
  obtain m where m: "0 < m" "m \<le> 14" "trace w = take m ?P"
    using trace_prefix [of w] by blast
  have atmost: ?atmost using filter_new_page_take [OF m(1,2)] by (simp add: m(3))
  have one: ?one
  proof (intro allI impI)
    fix browser
    assume l: "w [] (ChromiumLaunch True) = Inr browser"
    then have b: "browser_of w = browser" by (simp add: browser_of_def returned_def)
    have "trace w ! 0 = ?P ! 0" using length_trace(1) [of w] by (simp add: trace_nth)
    with l have "succeeded (answer w (trace w) 0)" by (simp add: answer_def procedure_def)
    then have "1 < length (trace w)"
      using succeeded_continues [of 0 w] length_trace(1) [of w] by simp
    with m have "m \<noteq> 1" by auto
    with filter_new_page_take [OF m(1,2)] b
    show "filter is_NewPage (trace w) = [NewPage browser]" by (simp add: m(3))
  qed
  have browser: ?browser using filter_launch_take [OF m(1,2)] by (simp add: m(3))
  have second: ?second
  proof (intro allI impI)
    fix i
    assume i: "i < length (trace w)" and "is_NewPage (trace w ! i)"
    then have "is_NewPage (?P ! i)" by (simp add: trace_nth)
    then show "i = 1" by (rule procedure_is_new_page [OF trace_lt14 [OF i]])
  qed
  have same: ?same
  proof (intro allI impI)
    fix i pg
    assume i: "i < length (trace w)" and u: "page_used (trace w ! i) = Some pg"
    then have "page_used (?P ! i) = Some pg" by (simp add: trace_nth)
    from procedure_page_used [OF trace_lt14 [OF i] this]
    have eq: "pg = page_of w" "1 < i" by simp_all
    with i have len: "1 < length (trace w)" "Suc 1 < length (trace w)" by simp_all
    then have "succeeded (answer w (trace w) 1)" by (simp add: answers_before_last)
    with len(1) have "w [ChromiumLaunch True] (NewPage (browser_of w)) = Inr (page_of w)"
      by (rule new_page_answer)
    moreover from len(1) have "trace w ! 1 = NewPage (browser_of w)"
      by (simp add: trace_nth procedure_def)
    ultimately show "1 < i \<and> (\<exists>browser. trace w ! 1 = NewPage browser
                    \<and> w [ChromiumLaunch True] (NewPage browser) = Inr pg)"
      using eq by blast
  qed
  have all: ?all
    by (auto dest!: outcome_returns simp: procedure_def)
  from atmost one browser second same all show ?thesis by blast
qed

theorem single_page_witness:
  "outcome cooperative = Inr ()
   \<and> cooperative [] (ChromiumLaunch True) = Inr 0
   \<and> filter is_NewPage (trace cooperative) = [NewPage 0]
   \<and> filter is_ChromiumLaunch (trace cooperative) = [ChromiumLaunch True]
   \<and> 11 < length (trace cooperative)
   \<and> page_used (trace cooperative ! 11) = Some 1
   \<and> trace cooperative ! 1 = NewPage 0
   \<and> cooperative [ChromiumLaunch True] (NewPage 0) = Inr 1
   \<and> map page_used (trace cooperative) =
           [None, None, Some 1, Some 1, Some 1, None, Some 1, Some 1, None,
            Some 1, Some 1, Some 1, None, None]
   \<and> length (filter is_Goto (trace cooperative)) = 3
   \<and> length (filter is_ToBeVisible (trace cooperative)) = 3
   \<and> length (filter is_Screenshot (trace cooperative)) = 2"
proof -
  note inst = single_page [of cooperative]
  have h: "cooperative [] (ChromiumLaunch True) = Inr 0"
    "cooperative [ChromiumLaunch True] (NewPage 0) = Inr 1"
    by (simp_all add: cooperative_def)
  have t: "11 < length (trace cooperative)" "page_used (trace cooperative ! 11) = Some 1"
    "trace cooperative ! 1 = NewPage 0"
    "map page_used (trace cooperative) =
           [None, None, Some 1, Some 1, Some 1, None, Some 1, Some 1, None,
            Some 1, Some 1, Some 1, None, None]"
    by (simp_all add: trace_cooperative)
  from inst h(1) have one: "filter is_NewPage (trace cooperative) = [NewPage 0]" by blast
  from inst outcome_cooperative have counts:
    "length (filter is_Goto (trace cooperative)) = 3"
    "length (filter is_ToBeVisible (trace cooperative)) = 3"
    "length (filter is_Screenshot (trace cooperative)) = 2"
    by blast+
  from inst have "filter is_ChromiumLaunch (trace cooperative) = [ChromiumLaunch True]" by blast
  with outcome_cooperative h t one counts show ?thesis by blast
qed

end
